theory Spec2Isabelle
  imports Complex_Main "HOL-Library.Monad_Syntax"
begin

section \<open>Data model\<close>

text \<open>
  The module \<^verbatim>\<open>mc_td_and_qlearning.py\<close> works on dense numpy tables indexed by
  \<^verbatim>\<open>[state, action]\<close>. A table is a list of rows. States and actions are natural
  numbers (the environment hands out indices of a \<^verbatim>\<open>Discrete\<close> space). Every
  operation that raises in Python returns \<open>None\<close>.

  The entries of the tables are float64 numbers, read as the reals they denote. The
  returns, the temporal-difference updates and the policy probabilities are computed
  over the reals, without rounding. The incremental mean of line 180 is computed as
  float64 does, each operation rounded by \<open>f64\<close> below, since whether that update
  reaches the return exactly depends on the rounding.
\<close>

type_synonym table = "real list list"

type_synonym count_table = "nat list list"

type_synonym triple = "nat \<times> nat \<times> real"

text \<open>\<^verbatim>\<open>T[state, action]\<close> as a read: IndexError outside the table.\<close>

definition lookup2 :: "'a list list \<Rightarrow> nat \<Rightarrow> nat \<Rightarrow> 'a option" where
  "lookup2 T s a = (if s < length T \<and> a < length (T ! s) then Some (T ! s ! a) else None)"

text \<open>\<^verbatim>\<open>T[state, action] = v\<close> as a write: IndexError outside the table.\<close>

definition update2 :: "'a list list \<Rightarrow> nat \<Rightarrow> nat \<Rightarrow> 'a \<Rightarrow> 'a list list option" where
  "update2 T s a v =
     (if s < length T \<and> a < length (T ! s) then Some (T[s := (T ! s)[a := v]]) else None)"

text \<open>\<^verbatim>\<open>T[state]\<close>, one row of the table.\<close>

definition row :: "'a list list \<Rightarrow> nat \<Rightarrow> 'a list option" where
  "row T s = (if s < length T then Some (T ! s) else None)"

text \<open>\<^verbatim>\<open>np.zeros((nS, nA))\<close> and \<^verbatim>\<open>np.ones((nS, nA)) / nA\<close>.\<close>

definition zeros :: "nat \<Rightarrow> nat \<Rightarrow> table" where
  "zeros n m = replicate n (replicate m 0)"

definition uniform_policy :: "nat \<Rightarrow> nat \<Rightarrow> table" where
  "uniform_policy n m = replicate n (replicate m (1 / real m))"

text \<open>
  Rounding to float64 (IEEE 754 binary64, round to nearest, ties to even). A non-zero
  \<open>x\<close> with \<open>2 ^ k \<le> |x| < 2 ^ (k + 1)\<close> is rounded to a multiple of \<open>2 ^ (k - 52)\<close>
  (53 significant bits), and to a multiple of \<open>2 ^ (-1074)\<close> in the subnormal range.
  A result of magnitude \<open>2 ^ 1024\<close> or more is \<^verbatim>\<open>inf\<close> in numpy; the model has no
  infinities and gives \<open>None\<close> there. The sign of zero is not modelled.
\<close>

definition round_half_even :: "real \<Rightarrow> int" where
  "round_half_even x =
     (let f = \<lfloor>x\<rfloor>; d = x - of_int f
      in if d < 1 / 2 then f else if 1 / 2 < d then f + 1 else if even f then f else f + 1)"

definition f64 :: "real \<Rightarrow> real option" where
  "f64 x =
     (if x = 0 then Some 0
      else let e = max (\<lfloor>log 2 \<bar>x\<bar>\<rfloor> - 52) (- 1074);
               y = of_int (round_half_even (x / 2 powi e)) * 2 powi e
           in if \<bar>y\<bar> < 2 ^ 1024 then Some y else None)"

text \<open>
  The environment and numpy's global random generator share one hidden state \<open>'w\<close>.
  \<open>env_nS\<close>, \<open>env_nA\<close>, \<open>reset\<close> and \<open>step\<close> are the gym interface (the \<^verbatim>\<open>info\<close> component of
  \<^verbatim>\<open>env.step\<close> is dropped at every call site and is left out); \<open>choice p w\<close> is what
  \<^verbatim>\<open>np.random.choice(np.arange(len(p)), p=p)\<close> draws in the hidden state \<open>w\<close>.
\<close>

record 'w env =
  env_nS :: nat
  env_nA :: nat
  reset :: "'w \<Rightarrow> nat \<times> 'w"
  step :: "nat \<Rightarrow> 'w \<Rightarrow> (nat \<times> real \<times> bool) \<times> 'w"
  choice :: "real list \<Rightarrow> 'w \<Rightarrow> nat \<times> 'w"

section \<open>Return calculator\<close>

text \<open>
  \<^verbatim>\<open>np.dot\<close> of two vectors and the elementwise \<^verbatim>\<open>**\<close>; both raise on vectors of
  different lengths (numpy would broadcast a vector of length one, which does not
  arise: both arguments always have \<^verbatim>\<open>len_episode - i\<close> entries).
\<close>

definition dot :: "real list \<Rightarrow> real list \<Rightarrow> real option" where
  "dot xs ys =
     (if length xs = length ys then Some (sum_list (map (\<lambda>(x, y). x * y) (zip xs ys))) else None)"

definition vec_pow :: "real list \<Rightarrow> nat list \<Rightarrow> real list option" where
  "vec_pow xs ks =
     (if length xs = length ks then Some (map (\<lambda>(x, k). x ^ k) (zip xs ks)) else None)"

text \<open>The loop \<^verbatim>\<open>for i in range(len_episode)\<close> filling \<^verbatim>\<open>epi_returns[i]\<close>.\<close>

fun returns_loop ::
  "nat \<Rightarrow> real list \<Rightarrow> real list \<Rightarrow> nat list \<Rightarrow> nat list \<Rightarrow> real list \<Rightarrow> real list option" where
  "returns_loop len_episode reward_vector gamma_vector power_vector [] epi_returns = Some epi_returns"
| "returns_loop len_episode reward_vector gamma_vector power_vector (i # is) epi_returns = do {
     ws \<leftarrow> vec_pow (drop i gamma_vector) (take (len_episode - i) power_vector);
     g \<leftarrow> dot (drop i reward_vector) ws;
     returns_loop len_episode reward_vector gamma_vector power_vector is (epi_returns[i := g])
   }"

definition generate_returns :: "triple list \<Rightarrow> real \<Rightarrow> real list option" where
  "generate_returns episode gamma =
     (let len_episode = length episode;
          epi_returns = replicate len_episode 0;
          power_vector = [0..<len_episode];
          gamma_vector = replicate len_episode gamma;
          reward_vector = map (\<lambda>ep. snd (snd ep)) episode
      in returns_loop len_episode reward_vector gamma_vector power_vector [0..<len_episode] epi_returns)"

text \<open>The discounted return the specification asks for at step \<open>i\<close>.\<close>

definition discounted_return :: "real list \<Rightarrow> real \<Rightarrow> nat \<Rightarrow> real" where
  "discounted_return rewards gamma i = (\<Sum>j = i..<length rewards. gamma ^ (j - i) * rewards ! j)"

section \<open>Policy sampling and the episode sampler\<close>

text \<open>
  \<^verbatim>\<open>np.random.choice(all_actions, p=policy[state])\<close> raises ValueError on an empty
  action range, on a negative probability and on probabilities that do not sum to one.
\<close>

definition valid_probs :: "real list \<Rightarrow> bool" where
  "valid_probs p \<longleftrightarrow> p \<noteq> [] \<and> list_all (\<lambda>x. 0 \<le> x) p \<and> sum_list p = 1"

definition sample_action :: "'w env \<Rightarrow> table \<Rightarrow> nat \<Rightarrow> 'w \<Rightarrow> (nat \<times> 'w) option" where
  "sample_action env policy state w = do {
     p \<leftarrow> row policy state;
     if valid_probs p then Some (choice env p w) else None
   }"

text \<open>The result is \<^verbatim>\<open>(action, reward, new_state, done)\<close> and the new hidden state.\<close>

definition take_one_step ::
  "'w env \<Rightarrow> table \<Rightarrow> nat \<Rightarrow> 'w \<Rightarrow> ((nat \<times> real \<times> nat \<times> bool) \<times> 'w) option" where
  "take_one_step env policy state w = do {
     (action, w1) \<leftarrow> sample_action env policy state w;
     let ((new_state, reward, done), w2) = step env action w1;
     Some ((action, reward, new_state, done), w2)
   }"

text \<open>
  The loop \<^verbatim>\<open>for i in range(max_steps)\<close> of \<^verbatim>\<open>generate_episode\<close>; the first
  argument counts the iterations that are left, \<^verbatim>\<open>break\<close> returns at once.
\<close>

fun episode_loop ::
  "'w env \<Rightarrow> table \<Rightarrow> nat \<Rightarrow> triple list \<Rightarrow> nat \<Rightarrow> 'w \<Rightarrow> (triple list \<times> 'w) option" where
  "episode_loop env policy 0 episode curr_state w = Some (episode, w)"
| "episode_loop env policy (Suc n) episode curr_state w = do {
     ((a, r, next, done), w') \<leftarrow> take_one_step env policy curr_state w;
     let episode' = episode @ [(curr_state, a, r)];
     if done then Some (episode', w') else episode_loop env policy n episode' next w'
   }"

definition generate_episode :: "'w env \<Rightarrow> table \<Rightarrow> nat \<Rightarrow> 'w \<Rightarrow> (triple list \<times> 'w) option" where
  "generate_episode env policy max_steps w =
     (let (curr_state, w0) = reset env w in episode_loop env policy max_steps [] curr_state w0)"

text \<open>
  For the claim on the trajectory length: the state the sampler is in after \<open>k\<close> steps
  that are not cut short, whether step \<open>i\<close> (0-based) from a given state reports
  \<^verbatim>\<open>done\<close>, and the same from the reset state.
\<close>

fun advance :: "'w env \<Rightarrow> table \<Rightarrow> nat \<Rightarrow> nat \<Rightarrow> 'w \<Rightarrow> (nat \<times> 'w) option" where
  "advance env policy 0 s w = Some (s, w)"
| "advance env policy (Suc k) s w = do {
     ((a, r, next, done), w') \<leftarrow> take_one_step env policy s w;
     advance env policy k next w'
   }"

definition done_after :: "'w env \<Rightarrow> table \<Rightarrow> nat \<Rightarrow> 'w \<Rightarrow> nat \<Rightarrow> bool" where
  "done_after env policy s w i =
     (case advance env policy i s w of
        None \<Rightarrow> False
      | Some (s', w') \<Rightarrow>
          (case take_one_step env policy s' w' of
             None \<Rightarrow> False
           | Some ((a, r, next, done), w'') \<Rightarrow> done))"

definition done_on_step :: "'w env \<Rightarrow> table \<Rightarrow> 'w \<Rightarrow> nat \<Rightarrow> bool" where
  "done_on_step env policy w i = (let (s0, w0) = reset env w in done_after env policy s0 w0 i)"

section \<open>Monte Carlo policy evaluation\<close>

text \<open>
  The visit counts are natural numbers (the tables start at zero and are only ever
  incremented), so the division of the incremental mean is by a positive number.
  Lines 179-180, the update of one cell. Line 180 is
  \<^verbatim>\<open>Q_value[s, a] + ((returns[i] - Q_value[s, a]) / n_visits[s, a])\<close>: a float64
  subtraction, division and addition, each rounded.
\<close>

definition first_visit_update ::
  "table \<Rightarrow> count_table \<Rightarrow> nat \<Rightarrow> nat \<Rightarrow> real \<Rightarrow> (table \<times> count_table) option" where
  "first_visit_update Q_value n_visits state action G = do {
     n \<leftarrow> lookup2 n_visits state action;
     n_visits' \<leftarrow> update2 n_visits state action (n + 1);
     q \<leftarrow> lookup2 Q_value state action;
     n' \<leftarrow> lookup2 n_visits' state action;
     difference \<leftarrow> f64 (G - q);
     quotient \<leftarrow> f64 (difference / real n');
     total \<leftarrow> f64 (q + quotient);
     Q_value' \<leftarrow> update2 Q_value state action total;
     Some (Q_value', n_visits')
   }"

text \<open>
  The loop \<^verbatim>\<open>for i in range(len(episode))\<close>. Line 181 is the comparison
  \<^verbatim>\<open>visit_flag[state, action] == 1\<close>, whose value is dropped: the flag table goes
  into the next iteration as it came.
\<close>

fun mc_loop ::
  "triple list \<Rightarrow> real list \<Rightarrow> nat list \<Rightarrow> table \<Rightarrow> count_table \<Rightarrow> table
   \<Rightarrow> (table \<times> count_table) option" where
  "mc_loop episode returns [] Q_value n_visits visit_flag = Some (Q_value, n_visits)"
| "mc_loop episode returns (i # is) Q_value n_visits visit_flag =
     (if i < length episode then do {
        let state = fst (episode ! i);
        let action = fst (snd (episode ! i));
        flag \<leftarrow> lookup2 visit_flag state action;
        if flag = 0 then
          (if i < length returns then do {
             (Q_value', n_visits') \<leftarrow> first_visit_update Q_value n_visits state action (returns ! i);
             let compared = (visit_flag ! state ! action = 1);
             mc_loop episode returns is Q_value' n_visits' visit_flag
           } else None)
        else mc_loop episode returns is Q_value n_visits visit_flag
      } else None)"

text \<open>\<^verbatim>\<open>generate_episode\<close> is called with its default \<^verbatim>\<open>max_steps=500\<close>.\<close>

definition mc_policy_evaluation ::
  "'w env \<Rightarrow> table \<Rightarrow> table \<Rightarrow> count_table \<Rightarrow> real \<Rightarrow> 'w \<Rightarrow> ((table \<times> count_table) \<times> 'w) option" where
  "mc_policy_evaluation env policy Q_value n_visits gamma w = do {
     (episode, w') \<leftarrow> generate_episode env policy 500 w;
     returns \<leftarrow> generate_returns episode gamma;
     let visit_flag = zeros (env_nS env) (env_nA env);
     res \<leftarrow> mc_loop episode returns [0..<length episode] Q_value n_visits visit_flag;
     Some (res, w')
   }"

section \<open>Epsilon-greedy policy improvement\<close>

text \<open>\<^verbatim>\<open>np.amax\<close> of a row; ValueError on an empty row.\<close>

definition amax :: "real list \<Rightarrow> real option" where
  "amax xs = (case xs of [] \<Rightarrow> None | x # ys \<Rightarrow> Some (fold max ys x))"

text \<open>\<^verbatim>\<open>np.argwhere(q == np.amax(q)).flatten().tolist()\<close>: the indices of the maximal entries.\<close>

definition argwhere_max :: "real list \<Rightarrow> nat list option" where
  "argwhere_max q = do {
     m \<leftarrow> amax q;
     Some (filter (\<lambda>i. q ! i = m) [0..<length q])
   }"

text \<open>
  The loop \<^verbatim>\<open>for i in range(nA)\<close> that writes one row of the policy, cell by cell:
  \<open>p_max\<close> to the indices in \<open>indices\<close>, \<open>p_other\<close> to the others.
\<close>

fun policy_loop ::
  "table \<Rightarrow> nat \<Rightarrow> nat list \<Rightarrow> nat list \<Rightarrow> real \<Rightarrow> real \<Rightarrow> table option" where
  "policy_loop policy state indices [] p_max p_other = Some policy"
| "policy_loop policy state indices (i # is) p_max p_other = do {
     policy' \<leftarrow> update2 policy state i (if i \<in> set indices then p_max else p_other);
     policy_loop policy' state indices is p_max p_other
   }"

text \<open>
  The loop \<^verbatim>\<open>for state in range(nS)\<close> of \<^verbatim>\<open>epsilon_greedy_policy_improve\<close>.
  \<^verbatim>\<open>probability\<close> is computed before the inner loop, on Python numbers:
  ZeroDivisionError when \<^verbatim>\<open>nA\<close> or \<^verbatim>\<open>len(indices)\<close> is zero.
\<close>

fun improve_loop :: "table \<Rightarrow> nat \<Rightarrow> real \<Rightarrow> nat list \<Rightarrow> table \<Rightarrow> table option" where
  "improve_loop Q_value nA epsilon [] new_policy = Some new_policy"
| "improve_loop Q_value nA epsilon (state # states) new_policy = do {
     q \<leftarrow> row Q_value state;
     indices \<leftarrow> argwhere_max q;
     probability \<leftarrow> (if indices = [] \<or> nA = 0 then None
                     else Some ((1 - epsilon) / real (length indices) + epsilon / real nA));
     new_policy' \<leftarrow> policy_loop new_policy state indices [0..<nA] probability (epsilon / real nA);
     improve_loop Q_value nA epsilon states new_policy'
   }"

definition epsilon_greedy_policy_improve :: "table \<Rightarrow> nat \<Rightarrow> nat \<Rightarrow> real \<Rightarrow> table option" where
  "epsilon_greedy_policy_improve Q_value nS nA epsilon =
     improve_loop Q_value nA epsilon [0..<nS] (replicate nS (replicate nA (epsilon * 1 / real nA)))"

text \<open>
  Lines 299-304 of \<^verbatim>\<open>td_sarsa\<close> and 353-358 of \<^verbatim>\<open>qlearning\<close>: the same rule, written
  inline, for the one row \<^verbatim>\<open>s_t1\<close>. Here the two probabilities are computed inside
  the loop over \<^verbatim>\<open>range(nA)\<close>, so \<^verbatim>\<open>nA\<close> is positive wherever they are evaluated;
  \<^verbatim>\<open>indices\<close> holds at least the index of the maximum.
\<close>

definition rewrite_row :: "table \<Rightarrow> table \<Rightarrow> nat \<Rightarrow> nat \<Rightarrow> real \<Rightarrow> table option" where
  "rewrite_row Q_value policy s_t1 nA epsilon = do {
     q \<leftarrow> row Q_value s_t1;
     indices \<leftarrow> argwhere_max q;
     policy_loop policy s_t1 indices [0..<nA]
       ((1 - epsilon) / real (length indices) + epsilon / real nA) (epsilon / real nA)
   }"

text \<open>\<^verbatim>\<open>np.argmax(Q_value, axis=1)\<close>: per row the lowest index of a maximal entry.\<close>

definition argmax :: "real list \<Rightarrow> nat option" where
  "argmax q = (case argwhere_max q of Some (i # is) \<Rightarrow> Some i | _ \<Rightarrow> None)"

definition det_policy_of :: "table \<Rightarrow> nat list option" where
  "det_policy_of Q_value = those (map argmax Q_value)"

section \<open>The control loops\<close>

text \<open>\<^verbatim>\<open>mc_glie\<close>: the loop \<^verbatim>\<open>for k in range(iterations)\<close>.\<close>

fun mc_glie_loop ::
  "'w env \<Rightarrow> real \<Rightarrow> nat list \<Rightarrow> table \<Rightarrow> count_table \<Rightarrow> table \<Rightarrow> 'w \<Rightarrow> (table \<times> 'w) option" where
  "mc_glie_loop env gamma [] Q_value n_visits policy w = Some (Q_value, w)"
| "mc_glie_loop env gamma (k # ks) Q_value n_visits policy w = do {
     ((Q_value', n_visits'), w') \<leftarrow> mc_policy_evaluation env policy Q_value n_visits gamma w;
     let epsilon = 1 / real (k + 2);
     policy' \<leftarrow> epsilon_greedy_policy_improve Q_value' (env_nS env) (env_nA env) epsilon;
     mc_glie_loop env gamma ks Q_value' n_visits' policy' w'
   }"

definition mc_glie :: "'w env \<Rightarrow> nat \<Rightarrow> real \<Rightarrow> 'w \<Rightarrow> ((table \<times> nat list) \<times> 'w) option" where
  "mc_glie env iterations gamma w = do {
     (Q_value, w') \<leftarrow> mc_glie_loop env gamma [0..<iterations]
        (zeros (env_nS env) (env_nA env)) (replicate (env_nS env) (replicate (env_nA env) 0))
        (uniform_policy (env_nS env) (env_nA env)) w;
     det_policy \<leftarrow> det_policy_of Q_value;
     Some ((Q_value, det_policy), w')
   }"

text \<open>
  One iteration of the loop of \<^verbatim>\<open>td_sarsa\<close> (lines 292-311). The loop carries the
  Q table, the policy table, the current state and action, and the hidden state.
\<close>

type_synonym 'w sarsa_state = "table \<times> table \<times> nat \<times> nat \<times> 'w"

definition td_sarsa_step ::
  "'w env \<Rightarrow> real \<Rightarrow> real \<Rightarrow> nat \<Rightarrow> 'w sarsa_state \<Rightarrow> 'w sarsa_state option" where
  "td_sarsa_step env gamma alpha t st =
     (case st of (Q_value, policy, s_t1, a_t1, w) \<Rightarrow> do {
        let ((s_next, reward, done), w1) = step env a_t1 w;
        (a_next, w2) \<leftarrow> sample_action env policy s_next w1;
        q_sa \<leftarrow> lookup2 Q_value s_t1 a_t1;
        q_next \<leftarrow> lookup2 Q_value s_next a_next;
        Q_value' \<leftarrow> update2 Q_value s_t1 a_t1 (q_sa + alpha * (reward + gamma * q_next - q_sa));
        let epsilon = 1 / real (t + 2);
        policy' \<leftarrow> rewrite_row Q_value' policy s_t1 (env_nA env) epsilon;
        if done then do {
          let (s0, w3) = reset env w2;
          (a0, w4) \<leftarrow> sample_action env policy' s0 w3;
          Some (Q_value', policy', s0, a0, w4)
        } else Some (Q_value', policy', s_next, a_next, w2)
      })"

fun td_sarsa_loop ::
  "'w env \<Rightarrow> real \<Rightarrow> real \<Rightarrow> nat list \<Rightarrow> 'w sarsa_state \<Rightarrow> 'w sarsa_state option" where
  "td_sarsa_loop env gamma alpha [] st = Some st"
| "td_sarsa_loop env gamma alpha (t # ts) st = do {
     st' \<leftarrow> td_sarsa_step env gamma alpha t st;
     td_sarsa_loop env gamma alpha ts st'
   }"

definition td_sarsa_init :: "'w env \<Rightarrow> 'w \<Rightarrow> 'w sarsa_state option" where
  "td_sarsa_init env w = do {
     let Q_value = zeros (env_nS env) (env_nA env);
     let policy = uniform_policy (env_nS env) (env_nA env);
     let (s_t1, w1) = reset env w;
     (a_t1, w2) \<leftarrow> sample_action env policy s_t1 w1;
     Some (Q_value, policy, s_t1, a_t1, w2)
   }"

definition td_sarsa ::
  "'w env \<Rightarrow> nat \<Rightarrow> real \<Rightarrow> real \<Rightarrow> 'w \<Rightarrow> ((table \<times> nat list) \<times> 'w) option" where
  "td_sarsa env iterations gamma alpha w = do {
     st \<leftarrow> td_sarsa_init env w;
     (Q_value, policy, s_t1, a_t1, w') \<leftarrow> td_sarsa_loop env gamma alpha [0..<iterations] st;
     det_policy \<leftarrow> det_policy_of Q_value;
     Some ((Q_value, det_policy), w')
   }"

text \<open>
  One iteration of the loop of \<^verbatim>\<open>qlearning\<close> (lines 346-362). The loop carries the
  Q table, the policy table, the current state and the hidden state.
\<close>

type_synonym 'w q_state = "table \<times> table \<times> nat \<times> 'w"

definition qlearning_step ::
  "'w env \<Rightarrow> real \<Rightarrow> real \<Rightarrow> nat \<Rightarrow> 'w q_state \<Rightarrow> 'w q_state option" where
  "qlearning_step env gamma alpha t st =
     (case st of (Q_value, policy, s_t1, w) \<Rightarrow> do {
        (action, w1) \<leftarrow> sample_action env policy s_t1 w;
        let ((s_next, reward, done), w2) = step env action w1;
        q_next \<leftarrow> row Q_value s_next;
        max_action \<leftarrow> amax q_next;
        q_sa \<leftarrow> lookup2 Q_value s_t1 action;
        Q_value' \<leftarrow> update2 Q_value s_t1 action (q_sa + alpha * (reward + gamma * max_action - q_sa));
        let epsilon = 1 / real (t + 2);
        policy' \<leftarrow> rewrite_row Q_value' policy s_t1 (env_nA env) epsilon;
        if done then (let (s0, w3) = reset env w2 in Some (Q_value', policy', s0, w3))
        else Some (Q_value', policy', s_next, w2)
      })"

fun qlearning_loop ::
  "'w env \<Rightarrow> real \<Rightarrow> real \<Rightarrow> nat list \<Rightarrow> 'w q_state \<Rightarrow> 'w q_state option" where
  "qlearning_loop env gamma alpha [] st = Some st"
| "qlearning_loop env gamma alpha (t # ts) st = do {
     st' \<leftarrow> qlearning_step env gamma alpha t st;
     qlearning_loop env gamma alpha ts st'
   }"

definition qlearning_init :: "'w env \<Rightarrow> 'w \<Rightarrow> 'w q_state" where
  "qlearning_init env w =
     (let Q_value = zeros (env_nS env) (env_nA env);
          policy = uniform_policy (env_nS env) (env_nA env);
          (s_t1, w1) = reset env w
      in (Q_value, policy, s_t1, w1))"

definition qlearning ::
  "'w env \<Rightarrow> nat \<Rightarrow> real \<Rightarrow> real \<Rightarrow> 'w \<Rightarrow> ((table \<times> nat list) \<times> 'w) option" where
  "qlearning env iterations gamma alpha w = do {
     (Q_value, policy, s_t1, w') \<leftarrow> qlearning_loop env gamma alpha [0..<iterations] (qlearning_init env w);
     det_policy \<leftarrow> det_policy_of Q_value;
     Some ((Q_value, det_policy), w')
   }"

section \<open>Harnesses and example environments\<close>


text \<open>
  An environment with three states and two actions whose episode stays in state 2 for
  two steps; the random generator always draws action 1. The hidden state counts the
  steps, the reward of a step is its number, and the second step reports \<^verbatim>\<open>done\<close>.
\<close>

definition revisit_env :: "nat env" where
  "revisit_env = \<lparr>env_nS = 3, env_nA = 2,
     reset = (\<lambda>w. (2, 0)),
     step = (\<lambda>a w. ((2, real w, 1 \<le> w), w + 1)),
     choice = (\<lambda>p w. (1, w))\<rparr>"

text \<open>
  The set \<open>M\<close> of the specification: the actions whose value equals the maximum of the row.
\<close>

definition max_actions :: "real list \<Rightarrow> nat set" where
  "max_actions q = {a. a < length q \<and> q ! a = Max (set q)}"



text \<open>The same environment with a \<^verbatim>\<open>step\<close> that never reports \<^verbatim>\<open>done\<close>.\<close>

definition endless_env :: "nat env" where
  "endless_env = revisit_env\<lparr>step := (\<lambda>a w. ((2, real w, False), w + 1))\<rparr>"

section \<open>Properties of the return calculator\<close>

lemma vec_pow_slice:
  assumes "i < n"
  shows "vec_pow (drop i (replicate n g)) (take (n - i) [0..<n]) = Some (map (\<lambda>k. g ^ k) [0..<n - i])"
proof -
  have t: "take (n - i) [0..<n] = [0..<n - i]"
    by (simp add: take_upt)
  have "map (\<lambda>(x, k). x ^ k) (zip (replicate (n - i) g) [0..<n - i]) = map (\<lambda>k. g ^ k) [0..<n - i]"
    by (rule nth_equalityI) simp_all
  then show ?thesis
    by (simp add: vec_pow_def t)
qed

lemma sum_list_zip_drop:
  assumes "i \<le> length rs"
  shows "sum_list (map (\<lambda>(x, y). x * y) (zip (drop i rs) (map (\<lambda>k. g ^ k) [0..<length rs - i])))
         = discounted_return rs g i"
proof -
  let ?m = "length rs - i"
  have "map (\<lambda>(x, y). x * y) (zip (drop i rs) (map (\<lambda>k. g ^ k) [0..<?m]))
        = map (\<lambda>k. g ^ k * rs ! (i + k)) [0..<?m]"
    using assms by (intro nth_equalityI) (simp_all add: mult.commute)
  then have "sum_list (map (\<lambda>(x, y). x * y) (zip (drop i rs) (map (\<lambda>k. g ^ k) [0..<?m])))
        = (\<Sum>k = 0..<?m. g ^ k * rs ! (i + k))"
    by (simp add: interv_sum_list_conv_sum_set_nat)
  also have "\<dots> = (\<Sum>j = i..<length rs. g ^ (j - i) * rs ! j)"
    using assms sum.shift_bounds_nat_ivl [of "\<lambda>j. g ^ (j - i) * rs ! j" 0 i ?m]
    by (simp add: add.commute)
  finally show ?thesis
    by (simp add: discounted_return_def)
qed

lemma dot_slice:
  assumes "i < length rs"
  shows "dot (drop i rs) (map (\<lambda>k. g ^ k) [0..<length rs - i]) = Some (discounted_return rs g i)"
  using assms sum_list_zip_drop [of i rs g] by (simp add: dot_def)

lemma returns_loop_fold:
  assumes "\<forall>i \<in> set js. i < length acc" and "length rs = length acc"
  shows "returns_loop (length acc) rs (replicate (length acc) g) [0..<length acc] js acc
         = Some (fold (\<lambda>i xs. xs[i := discounted_return rs g i]) js acc)"
  using assms
proof (induction js arbitrary: acc)
  case Nil
  then show ?case by simp
next
  case (Cons j js)
  have j: "j < length acc" using Cons.prems by simp
  have step1: "vec_pow (drop j (replicate (length acc) g)) (take (length acc - j) [0..<length acc])
               = Some (map (\<lambda>k. g ^ k) [0..<length acc - j])"
    using j by (rule vec_pow_slice)
  have step2: "dot (drop j rs) (map (\<lambda>k. g ^ k) [0..<length acc - j]) = Some (discounted_return rs g j)"
    using j Cons.prems(2) dot_slice [of j rs g] by simp
  have ih: "returns_loop (length acc) rs (replicate (length acc) g) [0..<length acc] js (acc[j := discounted_return rs g j])
            = Some (fold (\<lambda>i xs. xs[i := discounted_return rs g i]) js (acc[j := discounted_return rs g j]))"
    using Cons.IH [of "acc[j := discounted_return rs g j]"] Cons.prems by simp
  show ?case
    by (simp only: returns_loop.simps Let_def step1 step2 ih Option.bind.bind_lunit fold_simps o_apply)
qed

lemma fold_fill:
  "k \<le> n \<Longrightarrow> fold (\<lambda>i xs. xs[i := f i]) [0..<k] (replicate n z) = map f [0..<k] @ replicate (n - k) z"
proof (induction k)
  case 0
  then show ?case by simp
next
  case (Suc k)
  then have "fold (\<lambda>i xs. xs[i := f i]) [0..<Suc k] (replicate n z)
             = (map f [0..<k] @ replicate (n - k) z)[k := f k]"
    by simp
  also have "\<dots> = map f [0..<k] @ (replicate (n - k) z)[0 := f k]"
    by (simp add: list_update_append)
  also have "(replicate (n - k) z)[0 := f k] = f k # replicate (n - Suc k) z"
    using Suc.prems by (cases "n - k") (simp_all add: Suc_diff_Suc)
  finally show ?case by simp
qed

lemma generate_returns_eq:
  "generate_returns episode gamma
   = Some (map (discounted_return (map (\<lambda>ep. snd (snd ep)) episode) gamma) [0..<length episode])"
proof -
  let ?n = "length episode"
  let ?rs = "map (\<lambda>ep. snd (snd ep)) episode"
  have "returns_loop (length (replicate ?n (0::real))) ?rs (replicate (length (replicate ?n (0::real))) gamma)
          [0..<length (replicate ?n (0::real))] [0..<?n] (replicate ?n 0)
        = Some (fold (\<lambda>i xs. xs[i := discounted_return ?rs gamma i]) [0..<?n] (replicate ?n 0))"
    by (rule returns_loop_fold) simp_all
  then show ?thesis
    by (simp add: generate_returns_def fold_fill)
qed


text \<open>
  Claim C3. For every trajectory and every discount factor, \<open>generate_returns\<close> returns
  a vector as long as the trajectory; its entry \<open>i\<close> is the sum over \<open>j \<ge> i\<close> of
  \<open>gamma ^ (j - i)\<close> times the reward of step \<open>j\<close>; a trajectory with the same rewards
  and other states and actions has the same returns; a single-step episode returns its
  one reward.
\<close>

theorem generate_returns_discounted:
  "\<exists>rets. generate_returns episode gamma = Some rets \<and> length rets = length episode \<and>
     (\<forall>i < length episode.
        rets ! i = (\<Sum>j = i..<length episode. gamma ^ (j - i) * snd (snd (episode ! j)))) \<and>
     (map (\<lambda>ep. snd (snd ep)) episode' = map (\<lambda>ep. snd (snd ep)) episode
        \<longrightarrow> generate_returns episode' gamma = Some rets) \<and>
     generate_returns [(s, a, r)] gamma = Some [r]"
proof -
  let ?rs = "map (\<lambda>ep. snd (snd ep)) episode"
  let ?rets = "map (discounted_return ?rs gamma) [0..<length episode]"
  have ret: "generate_returns episode gamma = Some ?rets"
    by (rule generate_returns_eq)
  have entry: "?rets ! i = (\<Sum>j = i..<length episode. gamma ^ (j - i) * snd (snd (episode ! j)))"
    if "i < length episode" for i
    using that by (simp add: discounted_return_def)
  have indep: "generate_returns episode' gamma = Some ?rets"
    if "map (\<lambda>ep. snd (snd ep)) episode' = ?rs"
  proof -
    have "length episode' = length episode"
      using that by (metis length_map)
    then show ?thesis
      using that by (simp add: generate_returns_eq)
  qed
  have single: "generate_returns [(s, a, r)] gamma = Some [r]"
    by (simp add: generate_returns_eq discounted_return_def)
  show ?thesis
    using ret entry indep single by (intro exI [of _ ?rets]) simp
qed

theorem generate_returns_discounted_witness:
  "\<exists>rets. generate_returns [(0, 1, 1), (4, 2, - 1), (6, 3, 0), (8, 0, 2)] (9 / 10) = Some rets \<and>
     length rets = 4 \<and> rets ! 0 = 1558 / 1000 \<and> rets ! 1 = 62 / 100 \<and>
     rets ! 2 = 18 / 10 \<and> rets ! 3 = 2 \<and>
     generate_returns [(5, 5, 1), (5, 5, - 1), (5, 5, 0), (5, 5, 2)] (9 / 10) = Some rets"
proof -
  let ?ep = "[(0, 1, 1), (4, 2, - 1), (6, 3, 0), (8, 0, 2)] :: triple list"
  let ?ep' = "[(5, 5, 1), (5, 5, - 1), (5, 5, 0), (5, 5, 2)] :: triple list"
  obtain rets where r: "generate_returns ?ep (9 / 10) = Some rets" "length rets = length ?ep"
    and e: "\<forall>i < length ?ep. rets ! i = (\<Sum>j = i..<length ?ep. (9 / 10) ^ (j - i) * snd (snd (?ep ! j)))"
    and i: "map (\<lambda>ep. snd (snd ep)) ?ep' = map (\<lambda>ep. snd (snd ep)) ?ep
            \<longrightarrow> generate_returns ?ep' (9 / 10) = Some rets"
    using generate_returns_discounted [of ?ep "9 / 10" ?ep'] by blast
  have n: "{0..<4::nat} = {0, 1, 2, 3}" "{1..<4::nat} = {1, 2, 3}" "{2..<4::nat} = {2, 3}"
    "{3..<4::nat} = {3}"
    by auto
  have "rets ! 0 = 1558 / 1000" "rets ! 1 = 62 / 100" "rets ! 2 = 18 / 10" "rets ! 3 = 2"
    using e by (simp_all add: n power2_eq_square power3_eq_cube)
  moreover have "generate_returns ?ep' (9 / 10) = Some rets"
    using i by simp
  ultimately show ?thesis
    using r by simp
qed

text \<open>
  Claim C9. On the empty trajectory \<open>generate_returns\<close> raises nothing and returns the
  empty vector, whatever the discount factor.
\<close>

theorem generate_returns_empty: "generate_returns [] gamma = Some []"
  by (simp add: generate_returns_def)

section \<open>The example environment\<close>

lemma revisit_policy: "uniform_policy 3 2 = [[1 / 2, 1 / 2], [1 / 2, 1 / 2], [1 / 2, 1 / 2]]"
  by (simp add: uniform_policy_def numeral_eq_Suc)

lemma revisit_step0:
  "take_one_step revisit_env (uniform_policy 3 2) 2 w = Some ((1, real w, 2, 1 \<le> w), w + 1)"
  by (simp add: take_one_step_def sample_action_def row_def valid_probs_def revisit_policy
      revisit_env_def)

lemma revisit_episode:
  "generate_episode revisit_env (uniform_policy 3 2) 500 0 = Some ([(2, 1, 0), (2, 1, 1)], 2)"
proof -
  have "episode_loop revisit_env (uniform_policy 3 2) (Suc (Suc k)) [] 2 0
        = Some ([(2, 1, 0), (2, 1, 1)], 2)" for k
    by (simp add: revisit_step0)
  from this [of 498] have "episode_loop revisit_env (uniform_policy 3 2) 500 [] 2 0
        = Some ([(2, 1, 0), (2, 1, 1)], 2)"
    by simp
  moreover have "reset revisit_env 0 = (2, 0)"
    by (simp add: revisit_env_def)
  ultimately show ?thesis
    by (simp add: generate_episode_def)
qed

lemma revisit_returns:
  "generate_returns [(2, 1, 0), (2, 1, 1)] (1 / 2) = Some [1 / 2, 1]"
  by (simp add: generate_returns_def vec_pow_def dot_def numeral_2_eq_2 upt_rec [of 0])

lemma revisit_reset: "reset revisit_env w = (2, 0)"
  by (simp add: revisit_env_def)

lemma revisit_done:
  "\<not> done_on_step revisit_env (uniform_policy 3 2) 0 0"
  "done_on_step revisit_env (uniform_policy 3 2) 0 (Suc 0)"
  by (simp_all add: done_on_step_def done_after_def revisit_step0 revisit_reset)

lemma revisit_wf:
  "\<forall>s < length (uniform_policy 3 2). valid_probs (uniform_policy 3 2 ! s)"
  "\<forall>w. fst (reset revisit_env w) < length (uniform_policy 3 2)"
  "\<forall>a w. fst (fst (step revisit_env a w)) < length (uniform_policy 3 2)"
proof -
  show "\<forall>s < length (uniform_policy 3 2). valid_probs (uniform_policy 3 2 ! s)"
    unfolding revisit_policy by (simp add: valid_probs_def nth_Cons' less_Suc_eq numeral_3_eq_3)
  show "\<forall>w. fst (reset revisit_env w) < length (uniform_policy 3 2)"
    unfolding revisit_policy by (simp add: revisit_reset)
  show "\<forall>a w. fst (fst (step revisit_env a w)) < length (uniform_policy 3 2)"
    unfolding revisit_policy by (simp add: revisit_env_def)
qed

section \<open>Properties of the episode sampler\<close>

lemma done_after_0:
  "take_one_step env policy s w = Some ((a, r, next, d), w') \<Longrightarrow> done_after env policy s w 0 = d"
  by (simp add: done_after_def)

lemma done_after_Suc:
  "take_one_step env policy s w = Some ((a, r, next, d), w') \<Longrightarrow>
   done_after env policy s w (Suc i) = done_after env policy next w' i"
  by (simp add: done_after_def)

lemma episode_loop_length:
  assumes "episode_loop env policy n ep s w = Some (ep', w')"
  shows "length ep' \<le> length ep + n \<and>
         ((\<forall>i < n. \<not> done_after env policy s w i) \<longrightarrow> length ep' = length ep + n) \<and>
         (\<forall>i < n. done_after env policy s w i \<and> (\<forall>j < i. \<not> done_after env policy s w j)
            \<longrightarrow> length ep' = length ep + i + 1)"
  using assms
proof (induction n arbitrary: ep s w)
  case 0
  then show ?case by simp
next
  case (Suc n)
  from Suc.prems obtain a r nxt d w1 where
    t: "take_one_step env policy s w = Some ((a, r, nxt, d), w1)"
    by (auto simp: bind_eq_Some_conv)
  note d0 = done_after_0 [OF t] and dS = done_after_Suc [OF t]
  show ?case
  proof (cases d)
    case True
    then have len: "length ep' = length ep + 1"
      using Suc.prems t by auto
    have first: "i = 0" if "\<forall>j < i. \<not> done_after env policy s w j" for i
      using that d0 True by (cases i) auto
    show ?thesis
      using len d0 True first by auto
  next
    case False
    then have rec: "episode_loop env policy n (ep @ [(s, a, r)]) nxt w1 = Some (ep', w')"
      using Suc.prems t by simp
    note ih = Suc.IH [OF rec]
    have le: "length ep' \<le> length ep + Suc n"
      using ih by simp
    have never: "length ep' = length ep + Suc n" if "\<forall>i < Suc n. \<not> done_after env policy s w i"
    proof -
      have "\<forall>i < n. \<not> done_after env policy nxt w1 i"
        using that dS by (metis Suc_less_eq)
      then show ?thesis using ih by simp
    qed
    have at: "length ep' = length ep + i + 1"
      if "i < Suc n" "done_after env policy s w i" "\<forall>j < i. \<not> done_after env policy s w j" for i
    proof (cases i)
      case 0
      then show ?thesis using that d0 False by simp
    next
      case (Suc k)
      have "k < n" using that(1) Suc by simp
      moreover have "done_after env policy nxt w1 k"
        using that(2) Suc dS by simp
      moreover have "\<forall>j < k. \<not> done_after env policy nxt w1 j"
        using that(3) Suc dS by (metis Suc_less_eq)
      ultimately have "length ep' = length (ep @ [(s, a, r)]) + k + 1"
        using ih by blast
      then show ?thesis using Suc by simp
    qed
    show ?thesis
      using le never at by blast
  qed
qed

lemma take_one_step_Some:
  assumes "s < length policy" and "valid_probs (policy ! s)"
  shows "\<exists>a r nxt d w'. take_one_step env policy s w = Some ((a, r, nxt, d), w') \<and>
           nxt = fst (fst (step env a (snd (choice env (policy ! s) w))))"
  using assms
  by (simp add: take_one_step_def sample_action_def row_def split: prod.splits)

lemma episode_loop_Some:
  assumes "\<forall>s < length policy. valid_probs (policy ! s)"
    and "\<forall>a w. fst (fst (step env a w)) < length policy"
    and "s < length policy"
  shows "episode_loop env policy n ep s w \<noteq> None"
  using assms(3)
proof (induction n arbitrary: ep s w)
  case 0
  then show ?case by simp
next
  case (Suc n)
  obtain a r nxt d w' where t: "take_one_step env policy s w = Some ((a, r, nxt, d), w')"
    and nxt: "nxt = fst (fst (step env a (snd (choice env (policy ! s) w))))"
    using take_one_step_Some [of s policy env w] Suc.prems assms(1) by blast
  have "nxt < length policy"
    using nxt assms(2) by simp
  then have "episode_loop env policy n (ep @ [(s, a, r)]) nxt w' \<noteq> None"
    by (rule Suc.IH)
  then show ?case
    using t by (cases d) simp_all
qed

lemma episode_length_bounds:
  assumes g: "generate_episode env policy max_steps w = Some (ep, w')"
  shows "length ep \<le> max_steps \<and>
      ((\<forall>i < max_steps. \<not> done_on_step env policy w i) \<longrightarrow> length ep = max_steps) \<and>
      (\<forall>i < max_steps. done_on_step env policy w i \<and> (\<forall>j < i. \<not> done_on_step env policy w j)
         \<longrightarrow> length ep = i + 1)"
proof -
  obtain s0 w0 where r: "reset env w = (s0, w0)"
    by (cases "reset env w")
  have l: "episode_loop env policy max_steps [] s0 w0 = Some (ep, w')"
    using g r by (simp add: generate_episode_def)
  have d: "done_after env policy s0 w0 = done_on_step env policy w"
    using r by (intro ext) (simp add: done_on_step_def)
  have "length ep \<le> length ([] :: triple list) + max_steps \<and>
         ((\<forall>i < max_steps. \<not> done_after env policy s0 w0 i)
            \<longrightarrow> length ep = length ([] :: triple list) + max_steps) \<and>
         (\<forall>i < max_steps. done_after env policy s0 w0 i \<and> (\<forall>j < i. \<not> done_after env policy s0 w0 j)
            \<longrightarrow> length ep = length ([] :: triple list) + i + 1)"
    by (rule episode_loop_length [OF l])
  then show ?thesis
    unfolding d list.size add_0 .
qed

lemma generate_episode_Some:
  assumes "\<forall>s < length policy. valid_probs (policy ! s)"
    and "\<forall>w. fst (reset env w) < length policy"
    and "\<forall>a w. fst (fst (step env a w)) < length policy"
  shows "generate_episode env policy max_steps w \<noteq> None"
proof -
  obtain s0 w0 where r: "reset env w = (s0, w0)"
    by (cases "reset env w")
  have "s0 < length policy"
    using assms(2) r by (metis fst_conv)
  then have "episode_loop env policy max_steps [] s0 w0 \<noteq> None"
    using assms(1,3) by (rule episode_loop_Some [rotated 2])
  then show ?thesis
    using r by (simp add: generate_episode_def)
qed

text \<open>
  Claim C7. Whenever \<open>generate_episode\<close> returns, the trajectory has at most
  \<open>max_steps\<close> triples; exactly \<open>max_steps\<close> if no step below \<open>max_steps\<close> reports
  \<^verbatim>\<open>done\<close>; exactly \<open>i + 1\<close> if step \<open>i\<close> is the first to report it. It does return
  when every row of the policy is a distribution and the environment stays inside the
  policy's states.
\<close>

theorem generate_episode_length:
  "(\<forall>ep w'. generate_episode env policy max_steps w = Some (ep, w') \<longrightarrow>
      length ep \<le> max_steps \<and>
      ((\<forall>i < max_steps. \<not> done_on_step env policy w i) \<longrightarrow> length ep = max_steps) \<and>
      (\<forall>i < max_steps. done_on_step env policy w i \<and> (\<forall>j < i. \<not> done_on_step env policy w j)
         \<longrightarrow> length ep = i + 1)) \<and>
   ((\<forall>s < length policy. valid_probs (policy ! s)) \<and>
    (\<forall>w. fst (reset env w) < length policy) \<and>
    (\<forall>a w. fst (fst (step env a w)) < length policy)
      \<longrightarrow> generate_episode env policy max_steps w \<noteq> None)"
proof (rule conjI)
  show "\<forall>ep w'. generate_episode env policy max_steps w = Some (ep, w') \<longrightarrow>
      length ep \<le> max_steps \<and>
      ((\<forall>i < max_steps. \<not> done_on_step env policy w i) \<longrightarrow> length ep = max_steps) \<and>
      (\<forall>i < max_steps. done_on_step env policy w i \<and> (\<forall>j < i. \<not> done_on_step env policy w j)
         \<longrightarrow> length ep = i + 1)"
    by (intro allI impI) (rule episode_length_bounds)
  show "(\<forall>s < length policy. valid_probs (policy ! s)) \<and>
    (\<forall>w. fst (reset env w) < length policy) \<and>
    (\<forall>a w. fst (fst (step env a w)) < length policy)
      \<longrightarrow> generate_episode env policy max_steps w \<noteq> None"
    by (intro impI, elim conjE) (rule generate_episode_Some)
qed

theorem generate_episode_length_witness:
  "(\<exists>ep w'. generate_episode revisit_env (uniform_policy 3 2) 500 0 = Some (ep, w') \<and>
      length ep \<le> 500 \<and> length ep = 2) \<and>
   (\<exists>ep w'. generate_episode revisit_env (uniform_policy 3 2) 1 0 = Some (ep, w') \<and>
      length ep = 1)"
proof
  note t = generate_episode_length [of revisit_env "uniform_policy 3 2" 500 0]
  have "generate_episode revisit_env (uniform_policy 3 2) 500 0 \<noteq> None"
    using t revisit_wf by blast
  then obtain ep w' where g: "generate_episode revisit_env (uniform_policy 3 2) 500 0 = Some (ep, w')"
    by auto
  have "length ep \<le> 500"
    using t g by blast
  moreover have "length ep = Suc 0 + 1"
  proof -
    have "Suc 0 < (500 :: nat)" by simp
    moreover have "\<forall>j < Suc 0. \<not> done_on_step revisit_env (uniform_policy 3 2) 0 j"
      using revisit_done(1) by simp
    ultimately show ?thesis
      using t g revisit_done(2) by blast
  qed
  ultimately show "\<exists>ep w'. generate_episode revisit_env (uniform_policy 3 2) 500 0 = Some (ep, w') \<and>
      length ep \<le> 500 \<and> length ep = 2"
    using g by simp
next
  note t = generate_episode_length [of revisit_env "uniform_policy 3 2" 1 0]
  have "generate_episode revisit_env (uniform_policy 3 2) 1 0 \<noteq> None"
    using t revisit_wf by blast
  then obtain ep w' where g: "generate_episode revisit_env (uniform_policy 3 2) 1 0 = Some (ep, w')"
    by auto
  have "\<forall>i < (1 :: nat). \<not> done_on_step revisit_env (uniform_policy 3 2) 0 i"
    using revisit_done(1) by simp
  then have "length ep = 1"
    using t g by blast
  then show "\<exists>ep w'. generate_episode revisit_env (uniform_policy 3 2) 1 0 = Some (ep, w') \<and>
      length ep = 1"
    using g by simp
qed

section \<open>Properties of the Monte Carlo update\<close>

lemma lookup2_update2:
  "update2 T s a v = Some T' \<Longrightarrow>
   lookup2 T' s' a' = (if s' = s \<and> a' = a then Some v else lookup2 T s' a')"
  by (auto simp: update2_def lookup2_def nth_list_update split: if_splits)



lemma f64_binade:
  assumes "2 powi k \<le> \<bar>x\<bar>" and "\<bar>x\<bar> < 2 powi (k + 1)"
  shows "f64 x =
           (let e = max (k - 52) (- 1074);
                y = of_int (round_half_even (x / 2 powi e)) * 2 powi e
            in if \<bar>y\<bar> < 2 ^ 1024 then Some y else None)"
proof -
  have "0 < (2 :: real) powi k"
    by (simp add: zero_less_power_int)
  then have pos: "0 < \<bar>x\<bar>"
    using assms(1) by linarith
  have p: "(2 :: real) powr (of_int j) = 2 powi j" for j
    by (simp add: powr_real_of_int')
  have "2 powr (of_int k) \<le> \<bar>x\<bar>" "\<bar>x\<bar> < 2 powr (of_int (k + 1))"
    using assms unfolding p by simp_all
  then have "2 powr (of_int k) \<le> \<bar>x\<bar> \<and> \<bar>x\<bar> < 2 powr (of_int k + 1)"
    by (simp add: add.commute)
  then have "\<lfloor>log 2 \<bar>x\<bar>\<rfloor> = k"
    using pos floor_log_eq_powr_iff [of "\<bar>x\<bar>" 2 k] by simp
  then show ?thesis
    using pos by (simp add: f64_def)
qed

text \<open>Float64 values, and two differences that float64 rounds.\<close>

lemma f64_values:
  "f64 1 = Some 1" "f64 (1 / 2) = Some (1 / 2)" "f64 (1 / 4) = Some (1 / 4)"
  "f64 (3 / 4) = Some (3 / 4)" "f64 (5 / 2) = Some (5 / 2)" "f64 (- (9 / 2)) = Some (- (9 / 2))"
  "f64 (10 ^ 16) = Some (10 ^ 16)" "f64 (- (10 ^ 16)) = Some (- (10 ^ 16))"
  using f64_binade [of 0 1] f64_binade [of "- 1" "1 / 2"] f64_binade [of "- 2" "1 / 4"]
    f64_binade [of "- 1" "3 / 4"] f64_binade [of 1 "5 / 2"] f64_binade [of 2 "- (9 / 2)"]
    f64_binade [of 53 "10 ^ 16"] f64_binade [of 53 "- (10 ^ 16)"]
  by (simp_all add: round_half_even_def power_int_minus)










text \<open>
  The float64 value nearest to \<open>0.1\<close> from the cell \<open>7\<close>: one update leaves
  \<open>0.09999999999999964\<close>, not the return.
\<close>

lemma update_example_tenth:
  "first_visit_update [[7]] [[0]] 0 0 (3602879701896397 / 36028797018963968)
   = Some ([[56294995342131 / 562949953421312]], [[1]])"
proof -
  have "f64 (3602879701896397 / 36028797018963968 - 7) = Some (- (3884354678607053 / 562949953421312))"
    using f64_binade [of 2 "3602879701896397 / 36028797018963968 - 7"]
    by (simp add: round_half_even_def power_int_minus)
  moreover have "f64 (- (3884354678607053 / 562949953421312))
                 = Some (- (3884354678607053 / 562949953421312))"
    using f64_binade [of 2 "- (3884354678607053 / 562949953421312)"]
    by (simp add: round_half_even_def power_int_minus)
  moreover have "f64 (7 - 3884354678607053 / 562949953421312)
                 = Some (56294995342131 / 562949953421312)"
    using f64_binade [of "- 4" "7 - 3884354678607053 / 562949953421312"]
    by (simp add: round_half_even_def power_int_minus)
  ultimately show ?thesis
    by (simp add: first_visit_update_def lookup2_def update2_def)
qed




text \<open>
  Claim C1. The first-visit rule asks that a pair occurring twice in an episode is
  updated once, with the return of its first occurrence. The code never sets
  \<^verbatim>\<open>visit_flag\<close>, so on the episode \<open>[(2, 1, 0), (2, 1, 1)]\<close> with \<open>gamma = 1/2\<close>
  (returns \<open>[1/2, 1]\<close>) the pair \<open>(2, 1)\<close> is updated at both occurrences: the visit
  count goes from 0 to 2 and the cell ends at \<open>3/4\<close>, where the first-visit rule gives
  a count of 1 and the value \<open>1/2\<close>.
\<close>

theorem mc_policy_evaluation_every_visit:
  "mc_policy_evaluation revisit_env (uniform_policy 3 2) (zeros 3 2) (replicate 3 (replicate 2 0))
     (1 / 2) 0
   = Some (([[0, 0], [0, 0], [0, 3 / 4]], [[0, 0], [0, 0], [0, 2]]), 2)"
proof -
  have z: "zeros 3 2 = [[0, 0], [0, 0], [0, 0]]"
    "replicate 3 (replicate 2 (0 :: nat)) = [[0, 0], [0, 0], [0, 0]]"
    by (simp_all add: zeros_def numeral_eq_Suc)
  have e: "env_nS revisit_env = 3" "env_nA revisit_env = 2"
    by (simp_all add: revisit_env_def)
  have u1: "first_visit_update [[0, 0], [0, 0], [0, 0]] [[0, 0], [0, 0], [0, 0]] 2 1 (1 / 2)
            = Some ([[0, 0], [0, 0], [0, 1 / 2]], [[0, 0], [0, 0], [0, 1]])"
    using f64_values by (simp add: first_visit_update_def lookup2_def update2_def)
  have u2: "first_visit_update [[0, 0], [0, 0], [0, 1 / 2]] [[0, 0], [0, 0], [0, 1]] 2 1 1
            = Some ([[0, 0], [0, 0], [0, 3 / 4]], [[0, 0], [0, 0], [0, 2]])"
    using f64_values by (simp add: first_visit_update_def lookup2_def update2_def)
  have l: "mc_loop [(2, 1, 0), (2, 1, 1)] [1 / 2, 1] [0, 1]
             [[0, 0], [0, 0], [0, 0]] [[0, 0], [0, 0], [0, 0]] [[0, 0], [0, 0], [0, 0]]
           = Some ([[0, 0], [0, 0], [0, 3 / 4]], [[0, 0], [0, 0], [0, 2]])"
    using u1 u2 by (simp add: lookup2_def)
  have i: "[0..<length [(2 :: nat, 1 :: nat, 0 :: real), (2, 1, 1)]] = [0, 1]"
    by (simp add: upt_rec [of 0])
  show ?thesis
    unfolding mc_policy_evaluation_def revisit_episode
    using revisit_returns l by (simp add: z e i del: mc_loop.simps)
qed

section \<open>Properties of the policy improvement operator\<close>

lemma amax_Max: "q \<noteq> [] \<Longrightarrow> amax q = Some (Max (set q))"
  by (cases q) (simp_all add: amax_def Max.set_eq_fold [symmetric])

lemma amax_Some: "amax q = Some m \<Longrightarrow> q \<noteq> [] \<and> m = Max (set q)"
  by (cases q) (simp_all add: amax_def Max.set_eq_fold [symmetric])

lemma max_actions_nonempty:
  assumes "q \<noteq> []"
  shows "max_actions q \<noteq> {}"
proof -
  have "Max (set q) \<in> set q"
    using assms by simp
  then obtain a where "a < length q" "q ! a = Max (set q)"
    by (auto simp: in_set_conv_nth)
  then show ?thesis
    by (auto simp: max_actions_def)
qed

lemma argwhere_max_Some:
  assumes "argwhere_max q = Some indices"
  shows "q \<noteq> [] \<and> set indices = max_actions q \<and> length indices = card (max_actions q)
         \<and> indices \<noteq> []"
proof -
  obtain m where m: "amax q = Some m" and i: "indices = filter (\<lambda>i. q ! i = m) [0..<length q]"
    using assms by (auto simp: argwhere_max_def bind_eq_Some_conv)
  have q: "q \<noteq> []" and mm: "m = Max (set q)"
    using amax_Some [OF m] by simp_all
  have s: "set indices = max_actions q"
    using i mm by (auto simp: max_actions_def)
  have "distinct indices"
    using i by simp
  then have "length indices = card (max_actions q)"
    using s distinct_card by fastforce
  moreover have "indices \<noteq> []"
    using s max_actions_nonempty [OF q] by auto
  ultimately show ?thesis
    using q s by simp
qed

lemma argwhere_max_total: "q \<noteq> [] \<Longrightarrow> argwhere_max q \<noteq> None"
  by (simp add: argwhere_max_def amax_Max)

lemma fold_fill_drop:
  "k \<le> length xs \<Longrightarrow> fold (\<lambda>i ys. ys[i := f i]) [0..<k] xs = map f [0..<k] @ drop k xs"
proof (induction k)
  case 0
  then show ?case by simp
next
  case (Suc k)
  then have "fold (\<lambda>i ys. ys[i := f i]) [0..<Suc k] xs = (map f [0..<k] @ drop k xs)[k := f k]"
    by simp
  also have "\<dots> = map f [0..<k] @ (drop k xs)[0 := f k]"
    by (simp add: list_update_append)
  also have "(drop k xs)[0 := f k] = f k # drop (Suc k) xs"
    using Suc.prems by (simp add: Cons_nth_drop_Suc [symmetric])
  finally show ?case by simp
qed

lemma policy_loop_fold:
  assumes "policy_loop P s indices js p_max p_other = Some P'"
  shows "P' = P[s := fold (\<lambda>i r. r[i := (if i \<in> set indices then p_max else p_other)]) js (P ! s)]
         \<and> (js \<noteq> [] \<longrightarrow> s < length P) \<and> (\<forall>j \<in> set js. j < length (P ! s))"
  using assms
proof (induction js arbitrary: P)
  case Nil
  then show ?case by simp
next
  case (Cons j js)
  let ?v = "if j \<in> set indices then p_max else p_other"
  from Cons.prems obtain P1 where u: "update2 P s j ?v = Some P1"
    and l: "policy_loop P1 s indices js p_max p_other = Some P'"
    by (auto simp: bind_eq_Some_conv)
  have s: "s < length P" and j: "j < length (P ! s)" and P1: "P1 = P[s := (P ! s)[j := ?v]]"
    using u by (auto simp: update2_def split: if_splits)
  have r1: "P1 ! s = (P ! s)[j := ?v]"
    using s P1 by simp
  note ih = Cons.IH [OF l]
  have "P' = P[s := fold (\<lambda>i r. r[i := (if i \<in> set indices then p_max else p_other)]) (j # js) (P ! s)]"
    using ih r1 P1 by simp
  moreover have "\<forall>i \<in> set (j # js). i < length (P ! s)"
    using ih r1 j by simp
  ultimately show ?case
    using s by simp
qed

lemma policy_loop_row:
  assumes "policy_loop P s indices [0..<nA] p_max p_other = Some P'"
  shows "P' = P[s := map (\<lambda>i. if i \<in> set indices then p_max else p_other) [0..<nA] @ drop nA (P ! s)]
         \<and> (0 < nA \<longrightarrow> s < length P \<and> nA \<le> length (P ! s))"
proof (cases "nA = 0")
  case True
  then show ?thesis
    using assms by simp
next
  case False
  note f = policy_loop_fold [OF assms]
  have "nA - 1 \<in> set [0..<nA]"
    using False by simp
  then have "nA - 1 < length (P ! s)"
    using f by blast
  then have le: "nA \<le> length (P ! s)"
    using False by simp
  have "[0..<nA] \<noteq> []"
    using False by simp
  then have "s < length P"
    using f by blast
  then show ?thesis
    using f le by (simp add: fold_fill_drop)
qed

lemma policy_loop_total:
  assumes "s < length P" and "\<forall>j \<in> set js. j < length (P ! s)"
  shows "policy_loop P s indices js p_max p_other \<noteq> None"
  using assms
proof (induction js arbitrary: P)
  case Nil
  then show ?case by simp
next
  case (Cons j js)
  let ?P1 = "P[s := (P ! s)[j := (if j \<in> set indices then p_max else p_other)]]"
  have u: "update2 P s j (if j \<in> set indices then p_max else p_other) = Some ?P1"
    using Cons.prems by (simp add: update2_def)
  have "policy_loop ?P1 s indices js p_max p_other \<noteq> None"
    using Cons.prems by (intro Cons.IH) simp_all
  then show ?case
    using u by simp
qed


lemma improve_loop_rows:
  assumes "improve_loop Q nA eps ss P = Some P'" and "distinct ss"
  shows "length P' = length P \<and>
         (\<forall>s \<in> set ss. 0 < nA \<and> s < length P \<and>
            P' ! s = map (\<lambda>i. if i \<in> max_actions (Q ! s)
                                then (1 - eps) / real (card (max_actions (Q ! s))) + eps / real nA
                                else eps / real nA) [0..<nA] @ drop nA (P ! s)) \<and>
         (\<forall>s. s \<notin> set ss \<longrightarrow> P' ! s = P ! s)"
  using assms
proof (induction ss arbitrary: P)
  case Nil
  then show ?case by simp
next
  case (Cons s ss)
  from Cons.prems(1) obtain q indices probability P1 where
    q: "row Q s = Some q" and i: "argwhere_max q = Some indices"
    and p: "(if indices = [] \<or> nA = 0 then None
             else Some ((1 - eps) / real (length indices) + eps / real nA)) = Some probability"
    and l: "policy_loop P s indices [0..<nA] probability (eps / real nA) = Some P1"
    and r: "improve_loop Q nA eps ss P1 = Some P'"
    by (auto simp: bind_eq_Some_conv)
  have qs: "q = Q ! s"
    using q by (simp add: row_def split: if_splits)
  have nA: "0 < nA" and pr: "probability = (1 - eps) / real (length indices) + eps / real nA"
    using p by (simp_all split: if_splits)
  note a = argwhere_max_Some [OF i]
  note pl = policy_loop_row [OF l]
  let ?row = "map (\<lambda>i. if i \<in> max_actions (Q ! s)
                          then (1 - eps) / real (card (max_actions (Q ! s))) + eps / real nA
                          else eps / real nA) [0..<nA] @ drop nA (P ! s)"
  have P1: "P1 = P[s := ?row]" and s: "s < length P"
    using pl nA a qs unfolding pr by (simp_all cong: if_cong)
  have d: "distinct ss" and ns: "s \<notin> set ss"
    using Cons.prems(2) by simp_all
  note ih = Cons.IH [OF r d]
  have len: "length P' = length P"
    using ih P1 by simp
  have here: "P' ! s = ?row"
    using ih ns P1 s by simp
  have there: "s' < length P \<and> P' ! s' = map (\<lambda>i. if i \<in> max_actions (Q ! s')
                                then (1 - eps) / real (card (max_actions (Q ! s'))) + eps / real nA
                                else eps / real nA) [0..<nA] @ drop nA (P ! s')"
    if "s' \<in> set ss" for s'
  proof -
    have "s' \<noteq> s" using that ns by auto
    then have "P1 ! s' = P ! s'" using P1 by simp
    then show ?thesis using ih that P1 by simp
  qed
  have other: "P' ! t = P ! t" if "t \<notin> set (s # ss)" for t
  proof -
    have "t \<noteq> s" "t \<notin> set ss" using that by simp_all
    then show ?thesis using ih P1 by simp
  qed
  show ?case
    using len nA s here there other by auto
qed

lemma improve_loop_total:
  assumes "0 < nA" and "\<forall>s \<in> set ss. s < length Q \<and> Q ! s \<noteq> [] \<and> s < length P"
    and "\<forall>r \<in> set P. nA \<le> length r"
  shows "improve_loop Q nA eps ss P \<noteq> None"
  using assms(2,3)
proof (induction ss arbitrary: P)
  case Nil
  then show ?case by simp
next
  case (Cons s ss)
  have s: "s < length Q" "Q ! s \<noteq> []" "s < length P"
    using Cons.prems(1) by simp_all
  obtain indices where i: "argwhere_max (Q ! s) = Some indices"
    using argwhere_max_total [OF s(2)] by auto
  have ne: "indices \<noteq> []"
    using argwhere_max_Some [OF i] by simp
  let ?p = "(1 - eps) / real (length indices) + eps / real nA"
  have row: "nA \<le> length (P ! s)"
    using Cons.prems(2) s(3) by simp
  then have "policy_loop P s indices [0..<nA] ?p (eps / real nA) \<noteq> None"
    using s(3) by (intro policy_loop_total) simp_all
  then obtain P1 where l: "policy_loop P s indices [0..<nA] ?p (eps / real nA) = Some P1"
    by auto
  have P1: "P1 = P[s := map (\<lambda>i. if i \<in> set indices then ?p else eps / real nA) [0..<nA]
                        @ drop nA (P ! s)]"
    using policy_loop_row [OF l] by simp
  have len: "length P1 = length P"
    using P1 by simp
  have rows: "\<forall>r \<in> set P1. nA \<le> length r"
  proof
    fix r assume "r \<in> set P1"
    then have "r \<in> insert (map (\<lambda>i. if i \<in> set indices then ?p else eps / real nA) [0..<nA]
                        @ drop nA (P ! s)) (set P)"
      using P1 set_update_subset_insert by fastforce
    then show "nA \<le> length r"
      using Cons.prems(2) by auto
  qed
  have "improve_loop Q nA eps ss P1 \<noteq> None"
    using Cons.prems(1) len rows by (intro Cons.IH) simp_all
  then show ?case
    using s i ne l assms(1) by (simp add: row_def)
qed

lemma improve_rows:
  assumes "epsilon_greedy_policy_improve Q nS nA eps = Some P"
  shows "length P = nS \<and>
         (\<forall>s < nS. P ! s = map (\<lambda>i. if i \<in> max_actions (Q ! s)
                                then (1 - eps) / real (card (max_actions (Q ! s))) + eps / real nA
                                else eps / real nA) [0..<nA])"
proof -
  have l: "improve_loop Q nA eps [0..<nS] (replicate nS (replicate nA (eps * 1 / real nA))) = Some P"
    using assms by (simp add: epsilon_greedy_policy_improve_def)
  have d: "distinct [0..<nS]"
    by simp
  note r = improve_loop_rows [OF l d]
  have "length P = nS"
    using r by simp
  moreover have "P ! s = map (\<lambda>i. if i \<in> max_actions (Q ! s)
                                then (1 - eps) / real (card (max_actions (Q ! s))) + eps / real nA
                                else eps / real nA) [0..<nA]" if "s < nS" for s
  proof -
    have "s \<in> set [0..<nS]" using that by simp
    then have "P ! s = map (\<lambda>i. if i \<in> max_actions (Q ! s)
                                then (1 - eps) / real (card (max_actions (Q ! s))) + eps / real nA
                                else eps / real nA) [0..<nA]
                 @ drop nA (replicate nS (replicate nA (eps * 1 / real nA)) ! s)"
      using r by blast
    then show ?thesis using that by simp
  qed
  ultimately show ?thesis by blast
qed

lemma improve_total:
  assumes "nS \<le> length Q" and "\<forall>s < nS. Q ! s \<noteq> []" and "0 < nA"
  shows "epsilon_greedy_policy_improve Q nS nA eps \<noteq> None"
  unfolding epsilon_greedy_policy_improve_def
  using assms by (intro improve_loop_total) auto

text \<open>
  Claim C2. Whenever \<open>epsilon_greedy_policy_improve\<close> returns, the table has \<open>nS\<close> rows
  of \<open>nA\<close> entries, and in every row each action of \<open>M\<close> (the actions whose Q value
  equals the row maximum) has probability \<open>(1 - epsilon) / |M| + epsilon / nA\<close> and
  every other action \<open>epsilon / nA\<close>. It returns whenever the Q table has \<open>nS\<close>
  non-empty rows and \<open>nA\<close> is positive. For the row \<open>[3, 3, 1, 3]\<close> with
  \<open>epsilon = 0.2\<close>, \<open>nA = 4\<close> the result is
  \<open>[0.8/3 + 0.05, 0.8/3 + 0.05, 0.05, 0.8/3 + 0.05]\<close>.
\<close>

theorem epsilon_greedy_tie_split:
  "(\<forall>P. epsilon_greedy_policy_improve Q_value nS nA epsilon = Some P \<longrightarrow>
      length P = nS \<and>
      (\<forall>s < nS. length (P ! s) = nA \<and>
         (\<forall>a < nA. P ! s ! a =
            (if a \<in> max_actions (Q_value ! s)
             then (1 - epsilon) / real (card (max_actions (Q_value ! s))) + epsilon / real nA
             else epsilon / real nA)))) \<and>
   (nS \<le> length Q_value \<and> (\<forall>s < nS. Q_value ! s \<noteq> []) \<and> 0 < nA
      \<longrightarrow> epsilon_greedy_policy_improve Q_value nS nA epsilon \<noteq> None) \<and>
   epsilon_greedy_policy_improve [[3, 3, 1, 3]] 1 4 (2 / 10)
     = Some [[(8 / 10) / 3 + 5 / 100, (8 / 10) / 3 + 5 / 100, 5 / 100, (8 / 10) / 3 + 5 / 100]]"
proof -
  have rows: "length P = nS \<and>
      (\<forall>s < nS. length (P ! s) = nA \<and>
         (\<forall>a < nA. P ! s ! a =
            (if a \<in> max_actions (Q_value ! s)
             then (1 - epsilon) / real (card (max_actions (Q_value ! s))) + epsilon / real nA
             else epsilon / real nA)))"
    if "epsilon_greedy_policy_improve Q_value nS nA epsilon = Some P" for P
    using improve_rows [OF that] by simp
  have total: "epsilon_greedy_policy_improve Q_value nS nA epsilon \<noteq> None"
    if "nS \<le> length Q_value \<and> (\<forall>s < nS. Q_value ! s \<noteq> []) \<and> 0 < nA"
    using that improve_total by blast
  have "epsilon_greedy_policy_improve [[3, 3, 1, 3]] 1 4 (2 / 10) \<noteq> None"
    by (rule improve_total) simp_all
  then obtain P where P: "epsilon_greedy_policy_improve [[3, 3, 1, 3]] 1 4 (2 / 10) = Some P"
    by auto
  have m: "max_actions [3, 3, 1, 3] = {0, 1, 3}"
    by (auto simp: max_actions_def nth_Cons' less_Suc_eq numeral_eq_Suc split: if_splits)
  have u: "[0..<4] = [0, 1, 2, 3]"
    by (simp add: upt_conv_Cons)
  have "length P = 1" and "P ! 0 = [(8 / 10) / 3 + 5 / 100, (8 / 10) / 3 + 5 / 100, 5 / 100, (8 / 10) / 3 + 5 / 100]"
    using improve_rows [OF P] by (simp_all add: m u)
  then have "P = [[(8 / 10) / 3 + 5 / 100, (8 / 10) / 3 + 5 / 100, 5 / 100, (8 / 10) / 3 + 5 / 100]]"
    by (cases P) simp_all
  then have example: "epsilon_greedy_policy_improve [[3, 3, 1, 3]] 1 4 (2 / 10)
     = Some [[(8 / 10) / 3 + 5 / 100, (8 / 10) / 3 + 5 / 100, 5 / 100, (8 / 10) / 3 + 5 / 100]]"
    using P by simp
  show ?thesis
    using rows total example by (intro conjI allI impI) blast+
qed

theorem epsilon_greedy_tie_split_witness:
  "\<exists>P. epsilon_greedy_policy_improve [[1, 5], [2, 2]] 2 2 (1 / 2) = Some P \<and> length P = 2 \<and>
     P ! 0 ! 0 = 1 / 4 \<and> P ! 0 ! 1 = 3 / 4 \<and> P ! 1 ! 0 = 1 / 2 \<and> P ! 1 ! 1 = 1 / 2"
proof -
  note t = epsilon_greedy_tie_split [of "[[1, 5], [2, 2]]" 2 2 "1 / 2"]
  have wf: "2 \<le> length [[1, 5], [2, 2 :: real]] \<and> (\<forall>s < 2. [[1, 5], [2, 2 :: real]] ! s \<noteq> [])
            \<and> 0 < (2 :: nat)"
    by (simp add: nth_Cons' )
  have "epsilon_greedy_policy_improve [[1, 5], [2, 2]] 2 2 (1 / 2) \<noteq> None"
    using t wf by blast
  then obtain P where P: "epsilon_greedy_policy_improve [[1, 5], [2, 2]] 2 2 (1 / 2) = Some P"
    by auto
  have rows: "length P = 2 \<and>
      (\<forall>s < 2. length (P ! s) = 2 \<and>
         (\<forall>a < 2. P ! s ! a =
            (if a \<in> max_actions ([[1, 5], [2, 2]] ! s)
             then (1 - 1 / 2) / real (card (max_actions ([[1, 5], [2, 2]] ! s))) + (1 / 2) / real 2
             else (1 / 2) / real 2)))"
    using t P by blast
  have m: "max_actions [1, 5] = {1}" "max_actions [2, 2] = {0, 1}"
    by (auto simp: max_actions_def nth_Cons' less_Suc_eq numeral_eq_Suc split: if_splits)
  have "P ! 0 ! 0 = 1 / 4" "P ! 0 ! 1 = 3 / 4" "P ! 1 ! 0 = 1 / 2" "P ! 1 ! 1 = 1 / 2"
    using rows by (simp_all add: m)
  then show ?thesis
    using P rows by simp
qed

section \<open>Properties of the temporal-difference steps\<close>

lemma sample_action_Some:
  assumes "sample_action env policy s w = Some (a, w')"
  shows "s < length policy \<and> valid_probs (policy ! s) \<and> choice env (policy ! s) w = (a, w')"
  using assms by (auto simp: sample_action_def row_def bind_eq_Some_conv split: if_splits)

lemma lookup2_Some: "lookup2 T s a = Some x \<Longrightarrow> s < length T \<and> a < length (T ! s) \<and> x = T ! s ! a"
  by (simp add: lookup2_def split: if_splits)

lemma td_sarsa_step_Some:
  assumes "td_sarsa_step env gamma alpha t (Q, policy, s, a, w) = Some (Q', policy', s2, a2, w')"
    and "step env a w = ((s', r, d), w1)"
    and "choice env (policy ! s') w1 = (a', w2)"
  shows "sample_action env policy s' w1 = Some (a', w2) \<and>
         lookup2 Q s a = Some (Q ! s ! a) \<and> lookup2 Q s' a' = Some (Q ! s' ! a') \<and>
         update2 Q s a (Q ! s ! a + alpha * (r + gamma * Q ! s' ! a' - Q ! s ! a)) = Some Q' \<and>
         rewrite_row Q' policy s (env_nA env) (1 / real (t + 2)) = Some policy' \<and>
         (if d then sample_action env policy' (fst (reset env w2)) (snd (reset env w2)) = Some (a2, w')
                    \<and> s2 = fst (reset env w2)
          else s2 = s' \<and> a2 = a' \<and> w' = w2)"
proof -
  from assms(1,2) obtain x where x: "sample_action env policy s' w1 = Some x"
    by (auto simp: td_sarsa_step_def bind_eq_Some_conv)
  then have sa: "sample_action env policy s' w1 = Some (a', w2)"
    using assms(3) sample_action_Some [of env policy s' w1 "fst x" "snd x"] by simp
  from assms(1,2) sa obtain q_sa where q: "lookup2 Q s a = Some q_sa"
    by (auto simp: td_sarsa_step_def bind_eq_Some_conv)
  from assms(1,2) sa q obtain q_next where n: "lookup2 Q s' a' = Some q_next"
    by (auto simp: td_sarsa_step_def bind_eq_Some_conv)
  have qv: "q_sa = Q ! s ! a" and nv: "q_next = Q ! s' ! a'"
    using lookup2_Some [OF q] lookup2_Some [OF n] by simp_all
  from assms(1,2) sa q n obtain Q1 where
    u: "update2 Q s a (q_sa + alpha * (r + gamma * q_next - q_sa)) = Some Q1"
    by (auto simp: td_sarsa_step_def bind_eq_Some_conv)
  from assms(1,2) sa q n u obtain P1 where
    p: "rewrite_row Q1 policy s (env_nA env) (1 / real (t + 2)) = Some P1"
    by (auto simp: td_sarsa_step_def bind_eq_Some_conv)
  have rest: "(if d then (let (s0, w3) = reset env w2 in
                  sample_action env P1 s0 w3 \<bind> (\<lambda>(a0, w4). Some (Q1, P1, s0, a0, w4)))
               else Some (Q1, P1, s', a', w2)) = Some (Q', policy', s2, a2, w')"
    using assms(1,2) sa q n u p by (simp add: td_sarsa_step_def Let_def)
  have eq: "Q1 = Q' \<and> P1 = policy'"
    using rest by (cases d; cases "reset env w2") (auto simp: bind_eq_Some_conv)
  have tail: "(if d then sample_action env policy' (fst (reset env w2)) (snd (reset env w2)) = Some (a2, w')
                    \<and> s2 = fst (reset env w2)
          else s2 = s' \<and> a2 = a' \<and> w' = w2)"
    using rest eq by (cases d; cases "reset env w2") (auto simp: bind_eq_Some_conv)
  show ?thesis
    using sa q n u p tail eq qv nv by simp
qed

lemma qlearning_step_Some:
  assumes "qlearning_step env gamma alpha t (Q, policy, s, w) = Some (Q', policy', s2, w')"
    and "choice env (policy ! s) w = (a, w1)"
    and "step env a w1 = ((s', r, d), w2)"
  shows "sample_action env policy s w = Some (a, w1) \<and>
         row Q s' = Some (Q ! s') \<and> amax (Q ! s') = Some (Max (set (Q ! s'))) \<and>
         lookup2 Q s a = Some (Q ! s ! a) \<and>
         update2 Q s a (Q ! s ! a + alpha * (r + gamma * Max (set (Q ! s')) - Q ! s ! a)) = Some Q' \<and>
         rewrite_row Q' policy s (env_nA env) (1 / real (t + 2)) = Some policy' \<and>
         s2 = (if d then fst (reset env w2) else s') \<and>
         w' = (if d then snd (reset env w2) else w2)"
proof -
  from assms(1) obtain x where x: "sample_action env policy s w = Some x"
    by (auto simp: qlearning_step_def bind_eq_Some_conv)
  then have sa: "sample_action env policy s w = Some (a, w1)"
    using assms(2) sample_action_Some [of env policy s w "fst x" "snd x"] by simp
  from assms(1,3) sa obtain q_next where rw: "row Q s' = Some q_next"
    by (auto simp: qlearning_step_def bind_eq_Some_conv)
  from assms(1,3) sa rw obtain m where m: "amax q_next = Some m"
    by (auto simp: qlearning_step_def bind_eq_Some_conv)
  from assms(1,3) sa rw m obtain q_sa where q: "lookup2 Q s a = Some q_sa"
    by (auto simp: qlearning_step_def bind_eq_Some_conv)
  have rv: "q_next = Q ! s'" and mv: "m = Max (set (Q ! s'))" and qv: "q_sa = Q ! s ! a"
    using rw amax_Some [OF m] lookup2_Some [OF q] by (simp_all add: row_def split: if_splits)
  from assms(1,3) sa rw m q obtain Q1 where
    u: "update2 Q s a (q_sa + alpha * (r + gamma * m - q_sa)) = Some Q1"
    by (auto simp: qlearning_step_def bind_eq_Some_conv)
  from assms(1,3) sa rw m q u obtain P1 where
    p: "rewrite_row Q1 policy s (env_nA env) (1 / real (t + 2)) = Some P1"
    by (auto simp: qlearning_step_def bind_eq_Some_conv)
  have rest: "(if d then (let (s0, w3) = reset env w2 in Some (Q1, P1, s0, w3))
               else Some (Q1, P1, s', w2)) = Some (Q', policy', s2, w')"
    using assms(1,3) sa rw m q u p by (simp add: qlearning_step_def Let_def)
  have eq: "Q1 = Q' \<and> P1 = policy'"
    using rest by (cases d; cases "reset env w2") auto
  have tail: "s2 = (if d then fst (reset env w2) else s') \<and>
         w' = (if d then snd (reset env w2) else w2)"
    using rest by (cases d; cases "reset env w2") auto
  show ?thesis
    using sa rw m q u p tail eq rv mv qv by simp
qed












subsection \<open>Steps of the example environments\<close>

lemma revisit_fields:
  "step revisit_env a w = ((2, real w, 1 \<le> w), w + 1)"
  "reset revisit_env w = (2, 0)"
  "env_nA revisit_env = 2" "env_nS revisit_env = 3"
  "choice revisit_env p w = (1, w)"
  by (simp_all add: revisit_env_def)

lemma endless_fields:
  "step endless_env a w = ((2, real w, False), w + 1)"
  "reset endless_env w = (2, 0)"
  "env_nA endless_env = 2" "env_nS endless_env = 3"
  "choice endless_env p w = (1, w)"
  by (simp_all add: endless_env_def revisit_env_def)

lemma example_sample:
  "valid_probs r \<Longrightarrow> sample_action revisit_env [[1 / 2, 1 / 2], [1 / 2, 1 / 2], r] 2 w = Some (1, w)"
  "valid_probs r \<Longrightarrow> sample_action endless_env [[1 / 2, 1 / 2], [1 / 2, 1 / 2], r] 2 w = Some (1, w)"
  by (simp_all add: sample_action_def row_def revisit_fields endless_fields)

lemma example_probs: "valid_probs [1 / 2, 1 / 2]" "valid_probs [3 / 4, 1 / 4]"
  by (simp_all add: valid_probs_def)

lemma rewrite_row_example:
  "x < 5 \<Longrightarrow>
   rewrite_row [[0, 0], [0, 0], [5, x]] [[1 / 2, 1 / 2], [1 / 2, 1 / 2], [1 / 2, 1 / 2]] 2 2 (1 / 2)
   = Some [[1 / 2, 1 / 2], [1 / 2, 1 / 2], [3 / 4, 1 / 4]]"
  by (simp add: rewrite_row_def row_def argwhere_max_def amax_def update2_def upt_conv_Cons)



lemma sarsa_example_done:
  "td_sarsa_step revisit_env (1 / 2) (1 / 10) 0 ([[0, 0], [0, 0], [5, 1]], uniform_policy 3 2, 2, 1, 1)
   = Some ([[0, 0], [0, 0], [5, 21 / 20]], [[1 / 2, 1 / 2], [1 / 2, 1 / 2], [3 / 4, 1 / 4]], 2, 1, 0)"
  unfolding revisit_policy td_sarsa_step_def
  using rewrite_row_example [of "21 / 20"] example_probs
  by (simp add: revisit_fields example_sample lookup2_def update2_def)

lemma qlearning_example_done:
  "qlearning_step revisit_env (1 / 2) (1 / 10) 0 ([[0, 0], [0, 0], [5, 1]], uniform_policy 3 2, 2, 1)
   = Some ([[0, 0], [0, 0], [5, 5 / 4]], [[1 / 2, 1 / 2], [1 / 2, 1 / 2], [3 / 4, 1 / 4]], 2, 0)"
  unfolding revisit_policy qlearning_step_def
  using rewrite_row_example [of "5 / 4"] example_probs
  by (simp add: revisit_fields example_sample lookup2_def update2_def row_def amax_def)

lemma sarsa_example_endless:
  "td_sarsa_step endless_env (1 / 2) (1 / 10) 0 ([[0, 0], [0, 0], [5, 1]], uniform_policy 3 2, 2, 1, 1)
   = Some ([[0, 0], [0, 0], [5, 21 / 20]], [[1 / 2, 1 / 2], [1 / 2, 1 / 2], [3 / 4, 1 / 4]], 2, 1, 2)"
  unfolding revisit_policy td_sarsa_step_def
  using rewrite_row_example [of "21 / 20"] example_probs
  by (simp add: endless_fields example_sample lookup2_def update2_def)

lemma qlearning_example_endless:
  "qlearning_step endless_env (1 / 2) (1 / 10) 0 ([[0, 0], [0, 0], [5, 1]], uniform_policy 3 2, 2, 1)
   = Some ([[0, 0], [0, 0], [5, 5 / 4]], [[1 / 2, 1 / 2], [1 / 2, 1 / 2], [3 / 4, 1 / 4]], 2, 2)"
  unfolding revisit_policy qlearning_step_def
  using rewrite_row_example [of "5 / 4"] example_probs
  by (simp add: endless_fields example_sample lookup2_def update2_def row_def amax_def)


subsection \<open>The claims\<close>








text \<open>
  Claim C10. The Q update of a step of \<open>td_sarsa\<close> and of \<open>qlearning\<close> is the same
  whatever \<^verbatim>\<open>done\<close> is: it adds \<open>gamma * Q[s', a']\<close> (SARSA) or
  \<open>gamma * max Q[s']\<close> (Q-learning) also when \<^verbatim>\<open>done\<close> is true; an environment
  that reports the opposite flag on the same transition gives the same Q and policy
  tables; the flag decides only whether the next state is the reset state or \<open>s'\<close>.
\<close>

theorem td_update_ignores_done:
  "(\<forall>Q' policy' s2 a2 w' s' r d w1 a' w2.
      td_sarsa_step env gamma alpha t (Q, policy, s, a, w) = Some (Q', policy', s2, a2, w') \<and>
      step env a w = ((s', r, d), w1) \<and> choice env (policy ! s') w1 = (a', w2)
      \<longrightarrow> lookup2 Q' s a = Some (Q ! s ! a + alpha * (r + gamma * Q ! s' ! a' - Q ! s ! a)) \<and>
          s2 = (if d then fst (reset env w2) else s') \<and>
          (\<forall>f Q'' policy'' s3 a3 w''.
             f a w = ((s', r, \<not> d), w1) \<and>
             td_sarsa_step (env\<lparr>step := f\<rparr>) gamma alpha t (Q, policy, s, a, w)
               = Some (Q'', policy'', s3, a3, w'')
             \<longrightarrow> Q'' = Q' \<and> policy'' = policy')) \<and>
   (\<forall>Q' policy' s2 w' a0 w1 s' r d w2.
      qlearning_step env gamma alpha t (Q, policy, s, w) = Some (Q', policy', s2, w') \<and>
      choice env (policy ! s) w = (a0, w1) \<and> step env a0 w1 = ((s', r, d), w2)
      \<longrightarrow> lookup2 Q' s a0 = Some (Q ! s ! a0 + alpha * (r + gamma * Max (set (Q ! s')) - Q ! s ! a0)) \<and>
          s2 = (if d then fst (reset env w2) else s') \<and>
          (\<forall>f Q'' policy'' s3 w''.
             f a0 w1 = ((s', r, \<not> d), w2) \<and>
             qlearning_step (env\<lparr>step := f\<rparr>) gamma alpha t (Q, policy, s, w)
               = Some (Q'', policy'', s3, w'')
             \<longrightarrow> Q'' = Q' \<and> policy'' = policy'))"
proof -
  have sarsa: "lookup2 Q' s a = Some (Q ! s ! a + alpha * (r + gamma * Q ! s' ! a' - Q ! s ! a)) \<and>
          s2 = (if d then fst (reset env w2) else s') \<and>
          (\<forall>f Q'' policy'' s3 a3 w''.
             f a w = ((s', r, \<not> d), w1) \<and>
             td_sarsa_step (env\<lparr>step := f\<rparr>) gamma alpha t (Q, policy, s, a, w)
               = Some (Q'', policy'', s3, a3, w'')
             \<longrightarrow> Q'' = Q' \<and> policy'' = policy')"
    if h: "td_sarsa_step env gamma alpha t (Q, policy, s, a, w) = Some (Q', policy', s2, a2, w') \<and>
      step env a w = ((s', r, d), w1) \<and> choice env (policy ! s') w1 = (a', w2)"
    for Q' policy' s2 a2 w' s' r d w1 a' w2
  proof -
    have i: "update2 Q s a (Q ! s ! a + alpha * (r + gamma * Q ! s' ! a' - Q ! s ! a)) = Some Q'"
      "rewrite_row Q' policy s (env_nA env) (1 / real (t + 2)) = Some policy'"
      "s2 = (if d then fst (reset env w2) else s')"
      using td_sarsa_step_Some [of env gamma alpha t Q policy s a w Q' policy' s2 a2 w' s' r d w1 a' w2] h
      by (simp_all split: if_splits)
    have l: "lookup2 Q' s a = Some (Q ! s ! a + alpha * (r + gamma * Q ! s' ! a' - Q ! s ! a))"
      using lookup2_update2 [OF i(1), of s a] by simp
    have same: "Q'' = Q' \<and> policy'' = policy'"
      if g: "f a w = ((s', r, \<not> d), w1) \<and>
             td_sarsa_step (env\<lparr>step := f\<rparr>) gamma alpha t (Q, policy, s, a, w)
               = Some (Q'', policy'', s3, a3, w'')" for f Q'' policy'' s3 a3 w''
    proof -
      have st: "step (env\<lparr>step := f\<rparr>) a w = ((s', r, \<not> d), w1)"
        using g by simp
      have ch: "choice (env\<lparr>step := f\<rparr>) (policy ! s') w1 = (a', w2)"
        using h by simp
      have "update2 Q s a (Q ! s ! a + alpha * (r + gamma * Q ! s' ! a' - Q ! s ! a)) = Some Q''"
        "rewrite_row Q'' policy s (env_nA (env\<lparr>step := f\<rparr>)) (1 / real (t + 2)) = Some policy''"
        using td_sarsa_step_Some [OF conjunct2 [OF g] st ch] by simp_all
      then show ?thesis
        using i by simp
    qed
    have "\<forall>f Q'' policy'' s3 a3 w''.
             f a w = ((s', r, \<not> d), w1) \<and>
             td_sarsa_step (env\<lparr>step := f\<rparr>) gamma alpha t (Q, policy, s, a, w)
               = Some (Q'', policy'', s3, a3, w'')
             \<longrightarrow> Q'' = Q' \<and> policy'' = policy'"
      by (intro allI, rule impI, rule same)
    then show ?thesis
      using l i(3) by (intro conjI)
  qed
  have q: "lookup2 Q' s a0 = Some (Q ! s ! a0 + alpha * (r + gamma * Max (set (Q ! s')) - Q ! s ! a0)) \<and>
          s2 = (if d then fst (reset env w2) else s') \<and>
          (\<forall>f Q'' policy'' s3 w''.
             f a0 w1 = ((s', r, \<not> d), w2) \<and>
             qlearning_step (env\<lparr>step := f\<rparr>) gamma alpha t (Q, policy, s, w)
               = Some (Q'', policy'', s3, w'')
             \<longrightarrow> Q'' = Q' \<and> policy'' = policy')"
    if h: "qlearning_step env gamma alpha t (Q, policy, s, w) = Some (Q', policy', s2, w') \<and>
      choice env (policy ! s) w = (a0, w1) \<and> step env a0 w1 = ((s', r, d), w2)"
    for Q' policy' s2 w' a0 w1 s' r d w2
  proof -
    have i: "update2 Q s a0 (Q ! s ! a0 + alpha * (r + gamma * Max (set (Q ! s')) - Q ! s ! a0)) = Some Q'"
      "rewrite_row Q' policy s (env_nA env) (1 / real (t + 2)) = Some policy'"
      "s2 = (if d then fst (reset env w2) else s')"
      using qlearning_step_Some [of env gamma alpha t Q policy s w Q' policy' s2 w' a0 w1 s' r d w2] h
      by simp_all
    have l: "lookup2 Q' s a0 = Some (Q ! s ! a0 + alpha * (r + gamma * Max (set (Q ! s')) - Q ! s ! a0))"
      using lookup2_update2 [OF i(1), of s a0] by simp
    have same: "Q'' = Q' \<and> policy'' = policy'"
      if g: "f a0 w1 = ((s', r, \<not> d), w2) \<and>
             qlearning_step (env\<lparr>step := f\<rparr>) gamma alpha t (Q, policy, s, w)
               = Some (Q'', policy'', s3, w'')" for f Q'' policy'' s3 w''
    proof -
      have st: "step (env\<lparr>step := f\<rparr>) a0 w1 = ((s', r, \<not> d), w2)"
        using g by simp
      have ch: "choice (env\<lparr>step := f\<rparr>) (policy ! s) w = (a0, w1)"
        using h by simp
      have "update2 Q s a0 (Q ! s ! a0 + alpha * (r + gamma * Max (set (Q ! s')) - Q ! s ! a0)) = Some Q''"
        "rewrite_row Q'' policy s (env_nA (env\<lparr>step := f\<rparr>)) (1 / real (t + 2)) = Some policy''"
        using qlearning_step_Some [OF conjunct2 [OF g] ch st] by simp_all
      then show ?thesis
        using i by simp
    qed
    have "\<forall>f Q'' policy'' s3 w''.
             f a0 w1 = ((s', r, \<not> d), w2) \<and>
             qlearning_step (env\<lparr>step := f\<rparr>) gamma alpha t (Q, policy, s, w)
               = Some (Q'', policy'', s3, w'')
             \<longrightarrow> Q'' = Q' \<and> policy'' = policy'"
      by (intro allI, rule impI, rule same)
    then show ?thesis
      using l i(3) by (intro conjI)
  qed
  show ?thesis
    by (rule conjI; intro allI, rule impI) (rule sarsa, assumption, rule q, assumption)
qed

theorem td_update_ignores_done_witness:
  "step revisit_env 1 1 = ((2, 1, True), 2) \<and> step endless_env 1 1 = ((2, 1, False), 2) \<and>
   lookup2 [[0, 0], [0, 0], [5, 21 / 20 :: real]] 2 1 = Some (1 + 1 / 10 * (1 + 1 / 2 * 1 - 1)) \<and>
   lookup2 [[0, 0], [0, 0], [5, 5 / 4 :: real]] 2 1 = Some (1 + 1 / 10 * (1 + 1 / 2 * 5 - 1)) \<and>
   (\<exists>Q' policy' w' w''.
      td_sarsa_step revisit_env (1 / 2) (1 / 10) 0 ([[0, 0], [0, 0], [5, 1]], uniform_policy 3 2, 2, 1, 1)
        = Some (Q', policy', 2, 1, w') \<and>
      td_sarsa_step endless_env (1 / 2) (1 / 10) 0 ([[0, 0], [0, 0], [5, 1]], uniform_policy 3 2, 2, 1, 1)
        = Some (Q', policy', 2, 1, w'')) \<and>
   (\<exists>Q' policy' w' w''.
      qlearning_step revisit_env (1 / 2) (1 / 10) 0 ([[0, 0], [0, 0], [5, 1]], uniform_policy 3 2, 2, 1)
        = Some (Q', policy', 2, w') \<and>
      qlearning_step endless_env (1 / 2) (1 / 10) 0 ([[0, 0], [0, 0], [5, 1]], uniform_policy 3 2, 2, 1)
        = Some (Q', policy', 2, w''))"
proof -
  note t = td_update_ignores_done [of revisit_env "1 / 2" "1 / 10" 0 "[[0, 0], [0, 0], [5, 1]]"
      "uniform_policy 3 2" 2 1 1]
  have st: "step revisit_env 1 1 = ((2, 1, True), 2)"
    by (simp add: revisit_fields)
  have ch: "choice revisit_env (uniform_policy 3 2 ! 2) w = (1, w)" for w
    by (simp add: revisit_fields)
  have f: "step endless_env 1 1 = ((2, 1, \<not> True), 2)"
    by (simp add: endless_fields)
  have e: "revisit_env\<lparr>step := step endless_env\<rparr> = endless_env"
    by (simp add: endless_env_def)
  have sarsa: "lookup2 [[0, 0], [0, 0], [5, 21 / 20 :: real]] 2 1
        = Some ([[0, 0], [0, 0], [5, 1]] ! 2 ! 1
                + 1 / 10 * (1 + 1 / 2 * [[0, 0], [0, 0], [5, 1]] ! 2 ! 1 - [[0, 0], [0, 0], [5, 1]] ! 2 ! 1))
      \<and> (\<forall>f Q'' policy'' s3 a3 w''.
             f 1 1 = ((2, 1, \<not> True), 2) \<and>
             td_sarsa_step (revisit_env\<lparr>step := f\<rparr>) (1 / 2) (1 / 10) 0
               ([[0, 0], [0, 0], [5, 1]], uniform_policy 3 2, 2, 1, 1)
               = Some (Q'', policy'', s3, a3, w'')
             \<longrightarrow> Q'' = [[0, 0], [0, 0], [5, 21 / 20]]
                 \<and> policy'' = [[1 / 2, 1 / 2], [1 / 2, 1 / 2], [3 / 4, 1 / 4]])"
    using conjunct1 [OF t, rule_format, of _ _ _ _ _ 2 1 True 2 1 2] sarsa_example_done st ch [of 2]
    by simp
  have q: "lookup2 [[0, 0], [0, 0], [5, 5 / 4 :: real]] 2 1
        = Some ([[0, 0], [0, 0], [5, 1]] ! 2 ! 1
                + 1 / 10 * (1 + 1 / 2 * Max (set ([[0, 0], [0, 0], [5, 1]] ! 2))
                            - [[0, 0], [0, 0], [5, 1]] ! 2 ! 1))
      \<and> (\<forall>f Q'' policy'' s3 w''.
             f 1 1 = ((2, 1, \<not> True), 2) \<and>
             qlearning_step (revisit_env\<lparr>step := f\<rparr>) (1 / 2) (1 / 10) 0
               ([[0, 0], [0, 0], [5, 1]], uniform_policy 3 2, 2, 1)
               = Some (Q'', policy'', s3, w'')
             \<longrightarrow> Q'' = [[0, 0], [0, 0], [5, 5 / 4]]
                 \<and> policy'' = [[1 / 2, 1 / 2], [1 / 2, 1 / 2], [3 / 4, 1 / 4]])"
    using conjunct2 [OF t, rule_format, of _ _ _ _ 1 1 2 1 True 2] qlearning_example_done st ch [of 1]
    by simp
  have l1: "lookup2 [[0, 0], [0, 0], [5, 21 / 20 :: real]] 2 1 = Some (1 + 1 / 10 * (1 + 1 / 2 * 1 - 1))"
    using sarsa by simp
  have l2: "lookup2 [[0, 0], [0, 0], [5, 5 / 4 :: real]] 2 1 = Some (1 + 1 / 10 * (1 + 1 / 2 * 5 - 1))"
    using q by simp
  show ?thesis
    using st f l1 l2 sarsa_example_done sarsa_example_endless qlearning_example_done
      qlearning_example_endless by simp
qed

end
